theory Spec2Isabelle
  imports Main
begin

section \<open>Strings and JavaScript values\<close>

text \<open>
  A JavaScript string is modelled as a \<^typ>\<open>string\<close>: a list of code units below 256.
  A value that is either a string or \<open>undefined\<close> (what \<open>Array.prototype.pop\<close> gives on
  an array of strings) is a \<^typ>\<open>string option\<close>, with \<open>None\<close> for \<open>undefined\<close>.
\<close>

definition quote :: string where
  "quote = [CHR 0x27]"

definition newline :: char where
  "newline = CHR 0x0A"

text \<open>
  The code units below 256 that the pattern \<open>\s\<close> and \<open>String.prototype.trim\<close> take
  for white space: TAB, LF, VT, FF, CR, SP and NBSP.
\<close>

definition is_space :: "char \<Rightarrow> bool" where
  "is_space c = (c = CHR 0x09 \<or> c = CHR 0x0A \<or> c = CHR 0x0B \<or> c = CHR 0x0C \<or>
                 c = CHR 0x0D \<or> c = CHR 0x20 \<or> c = CHR 0xA0)"

text \<open>The template literal's conversion of a string-or-undefined to a string.\<close>

fun ToString :: "string option \<Rightarrow> string" where
  "ToString None = ''undefined''"
| "ToString (Some s) = s"

text \<open>The decimal rendering of a line number in a template literal. A line number is an
  array index plus one, a positive integer below \<open>2^32\<close>, which JavaScript renders by its
  decimal digits.\<close>

definition digit_char :: "nat \<Rightarrow> char" where
  "digit_char d = ''0123456789'' ! d"

fun string_of_nat :: "nat \<Rightarrow> string" where
  "string_of_nat n =
     (if n < 10 then [digit_char n] else string_of_nat (n div 10) @ [digit_char (n mod 10)])"

text \<open>\<open>Array.prototype.pop\<close>: the last element and the shortened array; \<open>undefined\<close> on
  the empty array, which stays empty.\<close>

definition pop :: "'a list \<Rightarrow> 'a option \<times> 'a list" where
  "pop xs = (if xs = [] then (None, []) else (Some (last xs), butlast xs))"

section \<open>Regular expressions\<close>

text \<open>
  The fragment of the pattern language that the two patterns of the source use: a
  character, a character range, concatenation, alternation, iteration and the empty
  match. \<open>r+\<close> is \<open>Seq r (Star r)\<close>, \<open>r{0,1}\<close> is \<open>Alt r Eps\<close>.
\<close>

datatype rexp =
    Nothing
  | Eps
  | Lit char
  | Range char char
  | Seq rexp rexp
  | Alt rexp rexp
  | Star rexp

definition in_range :: "char \<Rightarrow> char \<Rightarrow> char \<Rightarrow> bool" where
  "in_range lo hi c = ((of_char lo :: nat) \<le> of_char c \<and> (of_char c :: nat) \<le> of_char hi)"

fun nullable :: "rexp \<Rightarrow> bool" where
  "nullable Nothing = False"
| "nullable Eps = True"
| "nullable (Lit c) = False"
| "nullable (Range lo hi) = False"
| "nullable (Seq r s) = (nullable r \<and> nullable s)"
| "nullable (Alt r s) = (nullable r \<or> nullable s)"
| "nullable (Star r) = True"

text \<open>What is left of a pattern once it has read the character \<open>c\<close>.\<close>

fun deriv :: "char \<Rightarrow> rexp \<Rightarrow> rexp" where
  "deriv c Nothing = Nothing"
| "deriv c Eps = Nothing"
| "deriv c (Lit d) = (if c = d then Eps else Nothing)"
| "deriv c (Range lo hi) = (if in_range lo hi c then Eps else Nothing)"
| "deriv c (Seq r s) =
     (if nullable r then Alt (Seq (deriv c r) s) (deriv c s) else Seq (deriv c r) s)"
| "deriv c (Alt r s) = Alt (deriv c r) (deriv c s)"
| "deriv c (Star r) = Seq (deriv c r) (Star r)"

text \<open>The pattern matches the whole string.\<close>

fun full_match :: "rexp \<Rightarrow> string \<Rightarrow> bool" where
  "full_match r [] = nullable r"
| "full_match r (c # cs) = full_match (deriv c r) cs"

text \<open>The pattern matches some prefix of the string: a match that starts at index 0.\<close>

fun match_here :: "rexp \<Rightarrow> string \<Rightarrow> bool" where
  "match_here r [] = nullable r"
| "match_here r (c # cs) = (nullable r \<or> match_here (deriv c r) cs)"

text \<open>The pattern matches somewhere in the string: at index 0, or at a later index.\<close>

fun search :: "rexp \<Rightarrow> string \<Rightarrow> bool" where
  "search r [] = match_here r []"
| "search r (c # cs) = (match_here r (c # cs) \<or> search r cs)"

text \<open>Line 1: \<open>/(([1-9][0-9]*)|[0-9])((\.[0-9]+){0,1})/\<close>.\<close>

definition NUMBER_PATTERN :: rexp where
  "NUMBER_PATTERN =
     Seq (Alt (Seq (Range CHR ''1'' CHR ''9'') (Star (Range CHR ''0'' CHR ''9'')))
              (Range CHR ''0'' CHR ''9''))
         (Alt (Seq (Lit CHR ''.'')
                   (Seq (Range CHR ''0'' CHR ''9'') (Star (Range CHR ''0'' CHR ''9''))))
              Eps)"

text \<open>Line 2: \<open>/\+|-|\*|\//\<close>.\<close>

definition OPERATION_PATTERN :: rexp where
  "OPERATION_PATTERN =
     Alt (Lit CHR ''+'') (Alt (Lit CHR ''-'') (Alt (Lit CHR ''*'') (Lit CHR ''/'')))"

text \<open>
  The mutable part of a \<open>RegExp\<close> object is its \<open>lastIndex\<close> property. Both objects of
  the source are built without flags (no \<open>g\<close>, no \<open>y\<close>), and for such an object
  \<open>RegExp.prototype.test\<close> searches the string from index 0 and does not write
  \<open>lastIndex\<close>.
\<close>

record RegExp =
  lastIndex :: nat

definition RegExp_test :: "rexp \<Rightarrow> RegExp \<Rightarrow> string \<Rightarrow> bool \<times> RegExp" where
  "RegExp_test r rx s = (search r s, rx)"

text \<open>The module-level objects \<open>NUMBER_REGEX\<close> and \<open>OPERATION_REGEX\<close>: the state that
  outlives a call of the parser.\<close>

record globals =
  NUMBER_REGEX :: RegExp
  OPERATION_REGEX :: RegExp

definition initial_globals :: globals where
  "initial_globals =
     \<lparr>NUMBER_REGEX = \<lparr>lastIndex = 0\<rparr>, OPERATION_REGEX = \<lparr>lastIndex = 0\<rparr>\<rparr>"

definition NUMBER_REGEX_test :: "globals \<Rightarrow> string \<Rightarrow> bool \<times> globals" where
  "NUMBER_REGEX_test g s =
     (case RegExp_test NUMBER_PATTERN (NUMBER_REGEX g) s of
        (found, rx) \<Rightarrow> (found, g\<lparr>NUMBER_REGEX := rx\<rparr>))"

definition OPERATION_REGEX_test :: "globals \<Rightarrow> string \<Rightarrow> bool \<times> globals" where
  "OPERATION_REGEX_test g s =
     (case RegExp_test OPERATION_PATTERN (OPERATION_REGEX g) s of
        (found, rx) \<Rightarrow> (found, g\<lparr>OPERATION_REGEX := rx\<rparr>))"

section \<open>Nodes and compilation errors\<close>

datatype COMPILER_ERROR =
    INCOMPLETE_EXPRESSION
  | INVALID_TOKEN
  | INVALID_STACK
  | MULTIPLE_EXPRESSIONS

fun COMPILER_ERRORS :: "COMPILER_ERROR \<Rightarrow> string" where
  "COMPILER_ERRORS INCOMPLETE_EXPRESSION = ''Incomplete expression provided''"
| "COMPILER_ERRORS INVALID_TOKEN = ''Invalid token provided''"
| "COMPILER_ERRORS INVALID_STACK = ''Invalid stack element''"
| "COMPILER_ERRORS MULTIPLE_EXPRESSIONS = ''Multiple expressions on a single line''"

text \<open>
  The object \<open>CompilerError(error, expected, token, lineNumber)\<close> returns: its type is
  \<open>'ERROR'\<close>, its \<open>isNode\<close> is false, and its \<open>value\<close> and \<open>print\<close> are the closure
  \<open>generateError\<close> over the four arguments. \<open>token\<close> can be \<open>undefined\<close>.
\<close>

datatype CompilerError =
  CompilerError (error_of: COMPILER_ERROR) (expected_of: string) (token_of: "string option")
    (lineNumber_of: nat)

definition generateError :: "CompilerError \<Rightarrow> string" where
  "generateError e =
     ''[COMPILATION ERROR]: '' @ COMPILER_ERRORS (error_of e) @ '' => expected '' @ expected_of e @
     '', got '' @ quote @ ToString (token_of e) @ quote @ '' on line '' @
     string_of_nat (lineNumber_of e)"

text \<open>The objects \<open>LangNode\<close> returns (\<open>isNode\<close> true), by constructor.\<close>

datatype LangNode =
    VoidNode
  | NumberNode string
  | BinaryExpressionNode string LangNode LangNode

fun node_type :: "LangNode \<Rightarrow> string" where
  "node_type VoidNode = ''VOID''"
| "node_type (NumberNode number) = ''NUMBER''"
| "node_type (BinaryExpressionNode operation arg1 arg2) = ''BINARY_EXPRESSION''"

text \<open>What the parser returns and what its stack can hold: a node or a compilation error.\<close>

datatype ParseResult =
    Node LangNode
  | Error CompilerError


section \<open>Evaluation\<close>

text \<open>
  The values a \<open>value()\<close> closure returns. Numbers are IEEE doubles in the source; here
  they are any type \<open>'n\<close> with the operations of the record \<open>number_ops\<close>, so that every
  statement below holds for the doubles in particular.
\<close>

datatype 'n jsval =
    JNull
  | JUndefined
  | JNumber 'n
  | JString string

record 'n number_ops =
  Number :: "string \<Rightarrow> 'n"
  NaN :: 'n
  zero :: 'n
  add :: "'n \<Rightarrow> 'n \<Rightarrow> 'n"
  sub :: "'n \<Rightarrow> 'n \<Rightarrow> 'n"
  mul :: "'n \<Rightarrow> 'n \<Rightarrow> 'n"
  divide :: "'n \<Rightarrow> 'n \<Rightarrow> 'n"
  number_to_string :: "'n \<Rightarrow> string"

fun ToNumber :: "'n number_ops \<Rightarrow> 'n jsval \<Rightarrow> 'n" where
  "ToNumber ops JNull = zero ops"
| "ToNumber ops JUndefined = NaN ops"
| "ToNumber ops (JNumber x) = x"
| "ToNumber ops (JString s) = Number ops s"

fun val_to_string :: "'n number_ops \<Rightarrow> 'n jsval \<Rightarrow> string" where
  "val_to_string ops JNull = ''null''"
| "val_to_string ops JUndefined = ''undefined''"
| "val_to_string ops (JNumber x) = number_to_string ops x"
| "val_to_string ops (JString s) = s"

text \<open>The operator \<open>+\<close>: concatenation when an operand is a string, addition otherwise.\<close>

fun js_plus :: "'n number_ops \<Rightarrow> 'n jsval \<Rightarrow> 'n jsval \<Rightarrow> 'n jsval" where
  "js_plus ops (JString s) b = JString (s @ val_to_string ops b)"
| "js_plus ops a (JString t) = JString (val_to_string ops a @ t)"
| "js_plus ops a b = JNumber (add ops (ToNumber ops a) (ToNumber ops b))"

text \<open>The \<open>value\<close> closure of a node. An operation that is none of the four cases of the
  \<open>switch\<close> falls out of it, and the closure returns \<open>undefined\<close>.\<close>

fun node_value :: "'n number_ops \<Rightarrow> LangNode \<Rightarrow> 'n jsval" where
  "node_value ops VoidNode = JNull"
| "node_value ops (NumberNode number) = JNumber (Number ops number)"
| "node_value ops (BinaryExpressionNode operation arg1 arg2) =
     (if operation = ''+'' then js_plus ops (node_value ops arg1) (node_value ops arg2)
      else if operation = ''-'' then
        JNumber (sub ops (ToNumber ops (node_value ops arg1)) (ToNumber ops (node_value ops arg2)))
      else if operation = ''*'' then
        JNumber (mul ops (ToNumber ops (node_value ops arg1)) (ToNumber ops (node_value ops arg2)))
      else if operation = ''/'' then
        JNumber (divide ops (ToNumber ops (node_value ops arg1))
                   (ToNumber ops (node_value ops arg2)))
      else JUndefined)"

text \<open>The \<open>print\<close> closure of a node.\<close>

fun node_print :: "LangNode \<Rightarrow> string" where
  "node_print VoidNode = ''[ VOID VOID ]''"
| "node_print (NumberNode number) = ''[ NUMBER '' @ number @ '' ]''"
| "node_print (BinaryExpressionNode operation arg1 arg2) =
     ''[ BINARY_EXPRESSION '' @ operation @ '', '' @ node_print arg1 @ '', '' @
     node_print arg2 @ '' ]''"

fun value_of :: "'n number_ops \<Rightarrow> ParseResult \<Rightarrow> 'n jsval" where
  "value_of ops (Node n) = node_value ops n"
| "value_of ops (Error e) = JString (generateError e)"

section \<open>The lexer\<close>

text \<open>
  \<open>String.prototype.split\<close> with the pattern \<open>/\s+/\<close>: the pieces between the runs of
  white space. The empty string gives one empty piece; white space at the start or at
  the end of the string gives an empty first or last piece.
\<close>

function split_spaces :: "string \<Rightarrow> string list" where
  "split_spaces s =
     (let piece = takeWhile (\<lambda>c. \<not> is_space c) s;
          rest = dropWhile (\<lambda>c. \<not> is_space c) s
      in if rest = [] then [piece] else piece # split_spaces (dropWhile is_space rest))"
  by pat_completeness auto
termination
proof (relation "measure length")
  show "wf (measure length)" by simp
next
  fix s piece rest :: string
  assume rest: "rest = dropWhile (\<lambda>c. \<not> is_space c) s" and ne: "rest \<noteq> []"
  from ne have "is_space (hd rest)"
    unfolding rest using hd_dropWhile [of "\<lambda>c. \<not> is_space c" s] by simp
  with ne have "dropWhile is_space rest = dropWhile is_space (tl rest)"
    by (cases rest) simp_all
  then have "length (dropWhile is_space rest) \<le> length (tl rest)"
    using length_dropWhile_le [of is_space "tl rest"] by simp
  also have "\<dots> < length rest"
    using ne by (cases rest) simp_all
  also have "\<dots> \<le> length s"
    unfolding rest by (rule length_dropWhile_le)
  finally show "(dropWhile is_space rest, s) \<in> measure length" by simp
qed

declare split_spaces.simps [simp del]

definition lexer :: "string \<Rightarrow> string list" where
  "lexer line = split_spaces line"

text \<open>\<open>String.prototype.trim\<close>: the string without the white space at its two ends.\<close>

definition trim :: "string \<Rightarrow> string" where
  "trim s = rev (dropWhile is_space (rev (dropWhile is_space s)))"

text \<open>\<open>file.split('\n')\<close>: the pieces between the newline characters, one more than
  there are newlines.\<close>

fun split_newline :: "string \<Rightarrow> string list" where
  "split_newline [] = [[]]"
| "split_newline (c # cs) =
     (if c = newline then [] # split_newline cs
      else (case split_newline cs of
              [] \<Rightarrow> [[c]]
            | piece # pieces \<Rightarrow> (c # piece) # pieces))"

section \<open>The parser\<close>

datatype js_error =
    ReferenceError
  | TypeError

text \<open>How a call ends: it returns a value or it throws.\<close>

datatype 'a completion =
    Normal 'a
  | Throw js_error

text \<open>
  How one round of the \<open>while\<close> loop ends: the loop goes on with the tokens and the
  stack as the round left them, or a \<open>return\<close> leaves the function. A returned
  \<open>None\<close> is \<open>undefined\<close>.
\<close>

datatype step =
    Continue "string list" "ParseResult list" globals
  | Return "ParseResult option completion" globals

text \<open>\<open>Array.prototype.toString\<close> on the stack: its elements are objects, joined by
  commas.\<close>

fun stack_toString :: "ParseResult list \<Rightarrow> string" where
  "stack_toString [] = []"
| "stack_toString [x] = ''[object Object]''"
| "stack_toString (x # xs) = ''[object Object],'' @ stack_toString xs"

text \<open>
  The body of the loop (lines 99 to 178), entered with \<open>tokens\<close> not empty. The top of
  the stack and the next token are the last elements of their arrays. The test of
  \<open>prevNode.isNode\<close> is the case distinction on \<open>prevNode\<close>: \<open>isNode\<close> is false for
  an \<open>Error\<close> and true for a \<open>Node\<close>. In the branch of line 123 the identifier
  \<open>lastToken\<close> is declared nowhere: evaluating it throws a \<open>ReferenceError\<close>.
  \<open>!nextToken\<close> holds for \<open>undefined\<close> and for the empty string.
\<close>

definition loop_body :: "nat \<Rightarrow> string list \<Rightarrow> ParseResult list \<Rightarrow> globals \<Rightarrow> step" where
  "loop_body lineNumber tokens stack g =
     (let token = last tokens; tokens1 = butlast tokens in
      if stack = [] then
        (case NUMBER_REGEX_test g token of
           (isNumber, g1) \<Rightarrow>
             if isNumber then Continue tokens1 (stack @ [Node (NumberNode token)]) g1
             else Return (Normal (Some (Error
                    (CompilerError INVALID_TOKEN ''a number literal'' (Some token) lineNumber)))) g1)
      else
        (let prevNode = last stack; stack1 = butlast stack in
         case prevNode of
           Error e \<Rightarrow> Return (Throw ReferenceError) g
         | Node n \<Rightarrow>
             if node_type n = ''NUMBER'' \<or> node_type n = ''BINARY_EXPRESSION'' then
               (case OPERATION_REGEX_test g token of
                  (isOperation, g1) \<Rightarrow>
                    if \<not> isOperation then
                      Return (Normal (Some (Error
                        (CompilerError INVALID_TOKEN ''an operation token'' (Some token)
                           lineNumber)))) g1
                    else
                      (case pop tokens1 of
                         (None, tokens2) \<Rightarrow>
                           Return (Normal (Some (Error
                             (CompilerError INCOMPLETE_EXPRESSION ''a number literal'' None
                                lineNumber)))) g1
                       | (Some nextToken, tokens2) \<Rightarrow>
                           if nextToken = [] then
                             Return (Normal (Some (Error
                               (CompilerError INCOMPLETE_EXPRESSION ''a number literal''
                                  (Some nextToken) lineNumber)))) g1
                           else
                             (case NUMBER_REGEX_test g1 nextToken of
                                (isNumber, g2) \<Rightarrow>
                                  if \<not> isNumber then
                                    Return (Normal (Some (Error
                                      (CompilerError INVALID_TOKEN ''a number literal''
                                         (Some nextToken) lineNumber)))) g2
                                  else
                                    Continue tokens2
                                      (stack1 @
                                       [Node (BinaryExpressionNode token n (NumberNode nextToken))])
                                      g2)))
             else
               Return (Normal (Some (Error
                 (CompilerError INVALID_STACK ''a number or an operation'' (Some (node_type n))
                    lineNumber)))) g))"

lemma pop_length: "pop xs = (y, ys) \<Longrightarrow> length ys \<le> length xs"
  by (auto simp: pop_def split: if_splits)

lemma loop_body_shrinks:
  assumes "tokens \<noteq> []" and "loop_body lineNumber tokens stack g = Continue tokens' stack' g'"
  shows "length tokens' < length tokens"
proof -
  have less: "length (butlast tokens) < length tokens"
    using assms(1) by simp
  have "length tokens' \<le> length (butlast tokens)"
    using assms(2)
    by (auto simp: loop_body_def Let_def
        split: if_splits prod.splits ParseResult.splits option.splits dest: pop_length)
  with less show ?thesis by simp
qed

text \<open>The loop of line 98 and what follows it (lines 181 to 192).\<close>

function scan ::
  "nat \<Rightarrow> string list \<Rightarrow> ParseResult list \<Rightarrow> globals \<Rightarrow> ParseResult option completion \<times> globals"
where
  "scan lineNumber tokens stack g =
     (if tokens \<noteq> [] then
        (case loop_body lineNumber tokens stack g of
           Continue tokens' stack' g' \<Rightarrow> scan lineNumber tokens' stack' g'
         | Return r g' \<Rightarrow> (r, g'))
      else if length stack > 1 then
        (Normal (Some (Error
           (CompilerError MULTIPLE_EXPRESSIONS ''a single token'' (Some (stack_toString stack))
              lineNumber))), g)
      else (Normal (fst (pop stack)), g))"
  by pat_completeness auto
termination
  by (relation "measure (\<lambda>(lineNumber, tokens, stack, g). length tokens)")
    (auto dest: loop_body_shrinks)

declare scan.simps [simp del]

definition parseExpression ::
  "string list \<Rightarrow> nat \<Rightarrow> globals \<Rightarrow> ParseResult option completion \<times> globals"
where
  "parseExpression tokens lineNumber g =
     (if tokens = [] \<or> (length tokens = 1 \<and> tokens ! 0 = []) then
        (Normal (Some (Node VoidNode)), g)
      else scan lineNumber tokens [] g)"

section \<open>The line driver and the evaluator\<close>

text \<open>The \<open>map\<close> of \<open>compile\<close> over the lines, from the line of index \<open>index\<close> on: a
  call of the parser that throws ends the whole \<open>map\<close>.\<close>

fun compile_map ::
  "string list \<Rightarrow> nat \<Rightarrow> globals \<Rightarrow> ParseResult option list completion \<times> globals"
where
  "compile_map [] index g = (Normal [], g)"
| "compile_map (line # lines) index g =
     (case parseExpression (lexer (trim line)) (index + 1) g of
        (Throw e, g1) \<Rightarrow> (Throw e, g1)
      | (Normal r, g1) \<Rightarrow>
          (case compile_map lines (index + 1) g1 of
             (Throw e, g2) \<Rightarrow> (Throw e, g2)
           | (Normal rs, g2) \<Rightarrow> (Normal (r # rs), g2)))"

definition compile :: "string \<Rightarrow> globals \<Rightarrow> ParseResult option list completion \<times> globals" where
  "compile file g = compile_map (split_newline file) 0 g"

text \<open>\<open>node.value()\<close> on \<open>undefined\<close> throws a \<open>TypeError\<close>.\<close>

fun execute :: "'n number_ops \<Rightarrow> ParseResult option list \<Rightarrow> 'n jsval list completion" where
  "execute ops [] = Normal []"
| "execute ops (node # stack) =
     (case node of
        None \<Rightarrow> Throw TypeError
      | Some r \<Rightarrow>
          (case execute ops stack of
             Throw e \<Rightarrow> Throw e
           | Normal vs \<Rightarrow> Normal (value_of ops r # vs)))"

text \<open>\<open>execute(compile(file))\<close>: the values that \<open>run\<close> passes to \<open>console.log\<close>, in
  order.\<close>

definition run :: "'n number_ops \<Rightarrow> string \<Rightarrow> globals \<Rightarrow> 'n jsval list completion \<times> globals" where
  "run ops file g =
     (case compile file g of
        (Throw e, g1) \<Rightarrow> (Throw e, g1)
      | (Normal stack, g1) \<Rightarrow> (execute ops stack, g1))"

text \<open>An instance of the number operations that keeps every result as the expression
  that computes it.\<close>

definition symbolic :: "string number_ops" where
  "symbolic =
     \<lparr>Number = (\<lambda>s. s), NaN = ''NaN'', zero = ''0'',
      add = (\<lambda>a b. ''('' @ a @ ''+'' @ b @ '')''),
      sub = (\<lambda>a b. ''('' @ a @ ''-'' @ b @ '')''),
      mul = (\<lambda>a b. ''('' @ a @ ''*'' @ b @ '')''),
      divide = (\<lambda>a b. ''('' @ a @ ''/'' @ b @ '')''),
      number_to_string = (\<lambda>s. s)\<rparr>"

section \<open>What the two patterns accept\<close>

text \<open>A pattern that, read as written, matches no string at all.\<close>

fun no_match :: "rexp \<Rightarrow> bool" where
  "no_match Nothing = True"
| "no_match (Seq r s) = (no_match r \<or> no_match s)"
| "no_match (Alt r s) = (no_match r \<and> no_match s)"
| "no_match r = False"

definition is_digit :: "char \<Rightarrow> bool" where
  "is_digit c = in_range CHR ''0'' CHR ''9'' c"

definition is_operation_char :: "char \<Rightarrow> bool" where
  "is_operation_char c = (c = CHR ''+'' \<or> c = CHR ''-'' \<or> c = CHR ''*'' \<or> c = CHR ''/'')"

lemma no_match_not_nullable: "no_match r \<Longrightarrow> \<not> nullable r"
  by (induction r) auto

lemma no_match_deriv: "no_match r \<Longrightarrow> no_match (deriv c r)"
  by (induction r) (auto simp: no_match_not_nullable)

lemma no_match_match_here: "no_match r \<Longrightarrow> \<not> match_here r s"
  by (induction s arbitrary: r) (auto simp: no_match_not_nullable no_match_deriv)

lemma nullable_match_here: "nullable r \<Longrightarrow> match_here r s"
  by (cases s) simp_all

lemma full_match_match_here: "full_match r s \<Longrightarrow> match_here r s"
  by (induction s arbitrary: r) auto

lemma match_here_search: "match_here r s \<Longrightarrow> search r s"
  by (cases s) simp_all

lemma full_match_search: "full_match r s \<Longrightarrow> search r s"
  by (simp add: full_match_match_here match_here_search)

lemma in_range_1_9: "in_range CHR ''1'' CHR ''9'' c \<Longrightarrow> is_digit c"
  by (simp add: in_range_def is_digit_def)

lemma match_here_NUMBER: "match_here NUMBER_PATTERN s \<longleftrightarrow> s \<noteq> [] \<and> is_digit (hd s)"
proof (cases s)
  case Nil
  then show ?thesis by (simp add: NUMBER_PATTERN_def)
next
  case (Cons c cs)
  show ?thesis
  proof (cases "is_digit c")
    case True
    then have "nullable (deriv c NUMBER_PATTERN)"
      by (auto simp: NUMBER_PATTERN_def is_digit_def)
    then show ?thesis
      using True Cons by (simp add: nullable_match_here)
  next
    case False
    then have "no_match (deriv c NUMBER_PATTERN)"
      using in_range_1_9 [of c] by (auto simp: NUMBER_PATTERN_def is_digit_def)
    moreover have "\<not> nullable NUMBER_PATTERN"
      by (simp add: NUMBER_PATTERN_def)
    ultimately show ?thesis
      using False Cons by (simp add: no_match_match_here)
  qed
qed

lemma search_NUMBER: "search NUMBER_PATTERN s \<longleftrightarrow> list_ex is_digit s"
proof (induction s)
  case Nil
  then show ?case by (simp add: NUMBER_PATTERN_def)
next
  case (Cons c cs)
  have "match_here NUMBER_PATTERN (c # cs) \<longleftrightarrow> is_digit c"
    using match_here_NUMBER [of "c # cs"] by simp
  with Cons show ?case by simp
qed

lemma match_here_OPERATION:
  "match_here OPERATION_PATTERN s \<longleftrightarrow> s \<noteq> [] \<and> is_operation_char (hd s)"
proof (cases s)
  case Nil
  then show ?thesis by (simp add: OPERATION_PATTERN_def)
next
  case (Cons c cs)
  show ?thesis
  proof (cases "is_operation_char c")
    case True
    then have "nullable (deriv c OPERATION_PATTERN)"
      by (auto simp: OPERATION_PATTERN_def is_operation_char_def)
    then show ?thesis
      using True Cons by (simp add: nullable_match_here)
  next
    case False
    then have "no_match (deriv c OPERATION_PATTERN)"
      by (auto simp: OPERATION_PATTERN_def is_operation_char_def)
    moreover have "\<not> nullable OPERATION_PATTERN"
      by (simp add: OPERATION_PATTERN_def)
    ultimately show ?thesis
      using False Cons by (simp add: no_match_match_here)
  qed
qed

lemma search_OPERATION: "search OPERATION_PATTERN s \<longleftrightarrow> list_ex is_operation_char s"
proof (induction s)
  case Nil
  then show ?case by (simp add: OPERATION_PATTERN_def)
next
  case (Cons c cs)
  have "match_here OPERATION_PATTERN (c # cs) \<longleftrightarrow> is_operation_char c"
    using match_here_OPERATION [of "c # cs"] by simp
  with Cons show ?case by simp
qed

lemma NUMBER_REGEX_test_eq [simp]:
  "NUMBER_REGEX_test g s = (list_ex is_digit s, g)"
  by (simp add: NUMBER_REGEX_test_def RegExp_test_def search_NUMBER)

lemma OPERATION_REGEX_test_eq [simp]:
  "OPERATION_REGEX_test g s = (list_ex is_operation_char s, g)"
  by (simp add: OPERATION_REGEX_test_def RegExp_test_def search_OPERATION)

section \<open>The stack of the parser\<close>

text \<open>A fragment that is a NUMBER or a BINARY_EXPRESSION node.\<close>

fun is_expression :: "ParseResult \<Rightarrow> bool" where
  "is_expression (Node n) = (node_type n = ''NUMBER'' \<or> node_type n = ''BINARY_EXPRESSION'')"
| "is_expression (Error e) = False"

definition stack_ok :: "ParseResult list \<Rightarrow> bool" where
  "stack_ok stack = (length stack \<le> 1 \<and> list_all is_expression stack)"

text \<open>The tokens and the stack at the head of the loop, round after round, from the
  first test of the loop condition to the last.\<close>

function loop_states ::
  "nat \<Rightarrow> string list \<Rightarrow> ParseResult list \<Rightarrow> globals \<Rightarrow> (string list \<times> ParseResult list) list"
where
  "loop_states lineNumber tokens stack g =
     (tokens, stack) #
     (if tokens \<noteq> [] then
        (case loop_body lineNumber tokens stack g of
           Continue tokens' stack' g' \<Rightarrow> loop_states lineNumber tokens' stack' g'
         | Return r g' \<Rightarrow> [])
      else [])"
  by pat_completeness auto
termination
  by (relation "measure (\<lambda>(lineNumber, tokens, stack, g). length tokens)")
    (auto dest: loop_body_shrinks)

declare loop_states.simps [simp del]

text \<open>What the parser can return once the loop has started.\<close>

fun is_scan_result :: "ParseResult \<Rightarrow> bool" where
  "is_scan_result (Node n) = (node_type n = ''NUMBER'' \<or> node_type n = ''BINARY_EXPRESSION'')"
| "is_scan_result (Error e) =
     (error_of e = INVALID_TOKEN \<or> error_of e = INCOMPLETE_EXPRESSION)"

subsection \<open>Running the loop\<close>

lemma scan_Continue:
  "tokens \<noteq> [] \<Longrightarrow> loop_body lineNumber tokens stack g = Continue tokens' stack' g' \<Longrightarrow>
   scan lineNumber tokens stack g = scan lineNumber tokens' stack' g'"
  by (subst scan.simps) simp

lemma scan_Return:
  "tokens \<noteq> [] \<Longrightarrow> loop_body lineNumber tokens stack g = Return r g' \<Longrightarrow>
   scan lineNumber tokens stack g = (r, g')"
  by (subst scan.simps) simp

lemma scan_finished: "scan lineNumber [] [x] g = (Normal (Some x), g)"
  by (simp add: scan.simps pop_def)

subsection \<open>The invariant\<close>

lemma stack_ok_cases:
  assumes "stack_ok stack"
  obtains "stack = []" | n where "stack = [Node n]" and "is_expression (Node n)"
proof (cases stack)
  case Nil
  then show ?thesis using that by simp
next
  case (Cons x xs)
  with assms have xs: "xs = []" and x: "is_expression x"
    by (simp_all add: stack_ok_def)
  from x obtain n where "x = Node n"
    by (cases x) simp_all
  with xs x Cons show ?thesis using that by simp
qed

lemma loop_body_empty:
  "loop_body lineNumber tokens [] g =
     (if list_ex is_digit (last tokens)
      then Continue (butlast tokens) [Node (NumberNode (last tokens))] g
      else Return (Normal (Some (Error
             (CompilerError INVALID_TOKEN ''a number literal'' (Some (last tokens))
                lineNumber)))) g)"
  by (simp add: loop_body_def)

lemma loop_body_expression:
  assumes "is_expression (Node n)"
  shows "loop_body lineNumber tokens [Node n] g =
     (if \<not> list_ex is_operation_char (last tokens) then
        Return (Normal (Some (Error
          (CompilerError INVALID_TOKEN ''an operation token'' (Some (last tokens))
             lineNumber)))) g
      else if butlast tokens = [] then
        Return (Normal (Some (Error
          (CompilerError INCOMPLETE_EXPRESSION ''a number literal'' None lineNumber)))) g
      else if last (butlast tokens) = [] then
        Return (Normal (Some (Error
          (CompilerError INCOMPLETE_EXPRESSION ''a number literal'' (Some [])
             lineNumber)))) g
      else if \<not> list_ex is_digit (last (butlast tokens)) then
        Return (Normal (Some (Error
          (CompilerError INVALID_TOKEN ''a number literal'' (Some (last (butlast tokens)))
             lineNumber)))) g
      else
        Continue (butlast (butlast tokens))
          [Node (BinaryExpressionNode (last tokens) n (NumberNode (last (butlast tokens))))]
          g)"
  using assms by (simp add: loop_body_def pop_def)

lemma loop_body_Continue:
  assumes "stack_ok stack" and "loop_body lineNumber tokens stack g = Continue tokens' stack' g'"
  shows "stack_ok stack' \<and> stack' \<noteq> [] \<and> g' = g"
  using assms(1)
proof (cases rule: stack_ok_cases)
  case 1
  with assms(2) show ?thesis
    by (auto simp: loop_body_empty stack_ok_def split: if_splits)
next
  case (2 n)
  with assms(2) show ?thesis
    by (auto simp: loop_body_expression stack_ok_def split: if_splits)
qed

lemma loop_body_Return:
  assumes "stack_ok stack" and "loop_body lineNumber tokens stack g = Return r g'"
  shows "\<exists>e. r = Normal (Some (Error e)) \<and> is_scan_result (Error e) \<and> g' = g"
  using assms(1)
proof (cases rule: stack_ok_cases)
  case 1
  with assms(2) show ?thesis
    by (auto simp: loop_body_empty split: if_splits)
next
  case (2 n)
  with assms(2) show ?thesis
    by (auto simp: loop_body_expression split: if_splits)
qed

lemma scan_result:
  assumes "stack_ok stack" and "tokens \<noteq> [] \<or> stack \<noteq> []"
  shows "\<exists>r. scan lineNumber tokens stack g = (Normal (Some r), g) \<and> is_scan_result r"
  using assms
proof (induction lineNumber tokens stack g rule: scan.induct)
  case (1 lineNumber tokens stack g)
  show ?case
  proof (cases "tokens = []")
    case True
    with "1.prems" obtain n where "stack = [Node n]" and "is_expression (Node n)"
      by (auto elim: stack_ok_cases)
    with True show ?thesis
      by (simp add: scan.simps pop_def)
  next
    case False
    show ?thesis
    proof (cases "loop_body lineNumber tokens stack g")
      case (Continue tokens' stack' g')
      with "1.prems"(1) have ok: "stack_ok stack'" and ne: "stack' \<noteq> []" and g: "g' = g"
        using loop_body_Continue by blast+
      from "1.IH" [OF False Continue ok] ne
      have "\<exists>r. scan lineNumber tokens' stack' g' = (Normal (Some r), g') \<and> is_scan_result r"
        by simp
      with False Continue g show ?thesis
        by (simp add: scan.simps [of lineNumber tokens])
    next
      case (Return r g')
      with "1.prems"(1) obtain e where "r = Normal (Some (Error e))"
        and "is_scan_result (Error e)" and "g' = g"
        using loop_body_Return by blast
      with False Return show ?thesis
        by (simp add: scan.simps [of lineNumber tokens])
    qed
  qed
qed

lemma loop_states_ok:
  assumes "stack_ok stack"
  shows "list_all (\<lambda>(tokens', stack'). stack_ok stack') (loop_states lineNumber tokens stack g)"
  using assms
proof (induction lineNumber tokens stack g rule: loop_states.induct)
  case (1 lineNumber tokens stack g)
  show ?case
  proof (cases "tokens = []")
    case True
    with "1.prems" show ?thesis
      by (simp add: loop_states.simps)
  next
    case False
    show ?thesis
    proof (cases "loop_body lineNumber tokens stack g")
      case (Continue tokens' stack' g')
      with "1.prems" have "stack_ok stack'"
        using loop_body_Continue by blast
      from "1.IH" [OF False Continue this] "1.prems" False Continue show ?thesis
        by (simp add: loop_states.simps [of lineNumber tokens])
    next
      case (Return r g')
      with "1.prems" False show ?thesis
        by (simp add: loop_states.simps [of lineNumber tokens])
    qed
  qed
qed

subsection \<open>What the parser returns\<close>

lemma parseExpression_scan:
  "\<not> (tokens = [] \<or> (length tokens = 1 \<and> tokens ! 0 = [])) \<Longrightarrow>
   parseExpression tokens lineNumber g = scan lineNumber tokens [] g"
  unfolding parseExpression_def by (rule if_not_P)

lemma parseExpression_not_void:
  assumes "\<not> (tokens = [] \<or> (length tokens = 1 \<and> tokens ! 0 = []))"
  shows "\<exists>r. parseExpression tokens lineNumber g = (Normal (Some r), g) \<and> is_scan_result r"
proof -
  from assms have "tokens \<noteq> []" by simp
  with scan_result [of "[]" tokens lineNumber g]
  obtain r where "scan lineNumber tokens [] g = (Normal (Some r), g)" and "is_scan_result r"
    by (auto simp: stack_ok_def)
  with parseExpression_scan [OF assms, of lineNumber g] show ?thesis
    by simp
qed

lemma parseExpression_returns:
  "\<exists>r. parseExpression tokens lineNumber g = (Normal (Some r), g) \<and>
       (r = Node VoidNode \<or> is_scan_result r)"
proof (cases "tokens = [] \<or> (length tokens = 1 \<and> tokens ! 0 = [])")
  case True
  then show ?thesis
    by (simp add: parseExpression_def)
next
  case False
  from parseExpression_not_void [OF this, of lineNumber g] show ?thesis
    by blast
qed

section \<open>Totality of the parser\<close>

text \<open>
  C4. For every token sequence and every line number the parser returns, and what it
  returns is a parse result: the VOID node, a NUMBER node, a BINARY_EXPRESSION node or
  a compilation error. It never throws and never returns \<open>undefined\<close>.
\<close>

theorem parseExpression_total:
  "\<exists>r. fst (parseExpression tokens lineNumber g) = Normal (Some r) \<and>
       (r = Node VoidNode \<or>
        (\<exists>number. r = Node (NumberNode number)) \<or>
        (\<exists>operation arg1 arg2. r = Node (BinaryExpressionNode operation arg1 arg2)) \<or>
        (\<exists>e. r = Error e))"
proof -
  from parseExpression_returns [of tokens lineNumber g]
  obtain r where r: "parseExpression tokens lineNumber g = (Normal (Some r), g)"
    by blast
  have "r = Node VoidNode \<or>
        (\<exists>number. r = Node (NumberNode number)) \<or>
        (\<exists>operation arg1 arg2. r = Node (BinaryExpressionNode operation arg1 arg2)) \<or>
        (\<exists>e. r = Error e)"
  proof (cases r)
    case (Node n)
    then show ?thesis by (cases n) simp_all
  next
    case (Error e)
    then show ?thesis by simp
  qed
  with r show ?thesis by simp
qed

section \<open>The stack invariant\<close>

text \<open>
  C5. At the head of the loop, in every round, the stack holds at most one fragment, and
  a fragment it holds is a NUMBER or a BINARY_EXPRESSION node. A compilation error that
  the parser returns is therefore never INVALID_STACK and never MULTIPLE_EXPRESSIONS.
\<close>

theorem stack_invariant:
  "list_all (\<lambda>(tokens', stack'). length stack' \<le> 1 \<and> list_all is_expression stack')
     (loop_states lineNumber tokens [] g) \<and>
   (\<forall>e. fst (parseExpression tokens lineNumber g) = Normal (Some (Error e)) \<longrightarrow>
        error_of e \<noteq> INVALID_STACK \<and> error_of e \<noteq> MULTIPLE_EXPRESSIONS)"
proof
  have "stack_ok []" by (simp add: stack_ok_def)
  from loop_states_ok [OF this, of lineNumber tokens g]
  show "list_all (\<lambda>(tokens', stack'). length stack' \<le> 1 \<and> list_all is_expression stack')
     (loop_states lineNumber tokens [] g)"
    by (simp add: stack_ok_def)
next
  show "\<forall>e. fst (parseExpression tokens lineNumber g) = Normal (Some (Error e)) \<longrightarrow>
        error_of e \<noteq> INVALID_STACK \<and> error_of e \<noteq> MULTIPLE_EXPRESSIONS"
  proof (intro allI impI)
    fix e
    assume e: "fst (parseExpression tokens lineNumber g) = Normal (Some (Error e))"
    show "error_of e \<noteq> INVALID_STACK \<and> error_of e \<noteq> MULTIPLE_EXPRESSIONS"
    proof (cases "tokens = [] \<or> (length tokens = 1 \<and> tokens ! 0 = [])")
      case True
      with e show ?thesis by (simp add: parseExpression_def)
    next
      case False
      then have "tokens \<noteq> []" by simp
      with scan_result [of "[]" tokens lineNumber g]
      obtain r where "scan lineNumber tokens [] g = (Normal (Some r), g)" and "is_scan_result r"
        by (auto simp: stack_ok_def)
      moreover from False
      have "parseExpression tokens lineNumber g = scan lineNumber tokens [] g"
        by (rule parseExpression_scan)
      ultimately have "is_scan_result (Error e)"
        using e by simp
      then show ?thesis by auto
    qed
  qed
qed

lemma parse_invalid_operand:
  "fst (parseExpression [''x'', ''+'', ''2''] 3 initial_globals) =
     Normal (Some (Error (CompilerError INVALID_TOKEN ''a number literal'' (Some ''x'') 3)))"
  by (simp add: parseExpression_def scan.simps loop_body_empty loop_body_expression
      is_digit_def is_operation_char_def in_range_def)

theorem stack_invariant_witness:
  "list_all (\<lambda>(tokens', stack'). length stack' \<le> 1 \<and> list_all is_expression stack')
     (loop_states 3 [''x'', ''+'', ''2''] [] initial_globals) \<and>
   fst (parseExpression [''x'', ''+'', ''2''] 3 initial_globals) =
     Normal (Some (Error (CompilerError INVALID_TOKEN ''a number literal'' (Some ''x'') 3))) \<and>
   error_of (CompilerError INVALID_TOKEN ''a number literal'' (Some ''x'') 3) \<noteq> INVALID_STACK \<and>
   error_of (CompilerError INVALID_TOKEN ''a number literal'' (Some ''x'') 3)
     \<noteq> MULTIPLE_EXPRESSIONS"
  using stack_invariant [of 3 "[''x'', ''+'', ''2'']" initial_globals] parse_invalid_operand
  by simp

section \<open>Propagation of a compilation error\<close>





text \<open>
  The branch of line 123 itself, were a round entered with a compilation error on top
  of the stack: the undeclared identifier \<open>lastToken\<close> is evaluated and the round throws.
\<close>

lemma loop_body_popped_error:
  "loop_body lineNumber (tokens @ [t]) (stack @ [Error e]) g = Return (Throw ReferenceError) g"
  by (simp add: loop_body_def)




section \<open>The reduction from the right\<close>

text \<open>The numeral grammar and the operator grammar as the specification words them: a
  token that matches the numeral pattern as a whole, and a token that is one of the four
  operator symbols.\<close>

definition is_numeral :: "string \<Rightarrow> bool" where
  "is_numeral t = full_match NUMBER_PATTERN t"

definition is_operator :: "string \<Rightarrow> bool" where
  "is_operator t = (t = ''+'' \<or> t = ''-'' \<or> t = ''*'' \<or> t = ''/'')"

text \<open>The arithmetic operation that an operator symbol names.\<close>

definition arith :: "'n number_ops \<Rightarrow> string \<Rightarrow> 'n \<Rightarrow> 'n \<Rightarrow> 'n" where
  "arith ops t a b =
     (if t = ''+'' then add ops a b
      else if t = ''-'' then sub ops a b
      else if t = ''*'' then mul ops a b
      else divide ops a b)"

lemma is_numeral_digit: "is_numeral t \<Longrightarrow> list_ex is_digit t"
  using full_match_search [of NUMBER_PATTERN t] by (simp add: is_numeral_def search_NUMBER)

lemma is_numeral_not_empty: "is_numeral t \<Longrightarrow> t \<noteq> []"
  by (auto simp: is_numeral_def NUMBER_PATTERN_def)

lemma is_operator_char: "is_operator t \<Longrightarrow> list_ex is_operation_char t"
  by (auto simp: is_operator_def is_operation_char_def)

lemma node_value_not_string: "node_value ops n \<noteq> JString s"
proof (induction n arbitrary: s)
  case VoidNode
  show ?case by simp
next
  case (NumberNode number)
  show ?case by simp
next
  case (BinaryExpressionNode operation arg1 arg2)
  have "js_plus ops (node_value ops arg1) (node_value ops arg2) \<noteq> JString s"
    using BinaryExpressionNode.IH
    by (cases "node_value ops arg1"; cases "node_value ops arg2") auto
  then show ?case by simp
qed

lemma js_plus_numbers:
  "js_plus ops (node_value ops a) (JNumber y) =
     JNumber (add ops (ToNumber ops (node_value ops a)) y)"
  using node_value_not_string [of ops a] by (cases "node_value ops a") auto

lemma value_of_binary:
  assumes "is_operator t"
  shows "value_of ops (Node (BinaryExpressionNode t acc (NumberNode number))) =
     JNumber (arith ops t (ToNumber ops (node_value ops acc)) (Number ops number))"
  using assms by (auto simp: is_operator_def arith_def js_plus_numbers)

lemma loop_body_reduce:
  assumes "is_expression (Node acc)" and "is_operator t" and "is_numeral number"
  shows "loop_body lineNumber (tokens @ [number, t]) [Node acc] g =
     Continue tokens [Node (BinaryExpressionNode t acc (NumberNode number))] g"
proof -
  have "butlast (tokens @ [number, t]) = tokens @ [number]"
    by (simp add: butlast_append)
  with assms show ?thesis
    by (simp add: loop_body_expression is_operator_char is_numeral_digit is_numeral_not_empty)
qed

text \<open>
  C1. For a line \<open>[t1, op1, t2, op2, t3]\<close> of numerals and operators the parser builds
  the tree of \<open>(t3 op2 t2) op1 t1\<close> and its value is that arithmetic result; in each
  reduction the fragment on the stack becomes the left operand and the numeral taken
  next, further to the left, the right operand.
\<close>

theorem right_to_left_reduction:
  assumes "is_numeral t1" and "is_numeral t2" and "is_numeral t3"
    and "is_operator op1" and "is_operator op2"
  shows "fst (parseExpression [t1, op1, t2, op2, t3] lineNumber g) =
       Normal (Some (Node
         (BinaryExpressionNode op1
            (BinaryExpressionNode op2 (NumberNode t3) (NumberNode t2)) (NumberNode t1)))) \<and>
     value_of ops (Node
         (BinaryExpressionNode op1
            (BinaryExpressionNode op2 (NumberNode t3) (NumberNode t2)) (NumberNode t1))) =
       JNumber (arith ops op1 (arith ops op2 (Number ops t3) (Number ops t2)) (Number ops t1)) \<and>
     (\<forall>acc tokens. is_expression (Node acc) \<longrightarrow>
        loop_body lineNumber (tokens @ [t1, op1]) [Node acc] g =
          Continue tokens [Node (BinaryExpressionNode op1 acc (NumberNode t1))] g \<and>
        value_of ops (Node (BinaryExpressionNode op1 acc (NumberNode t1))) =
          JNumber (arith ops op1 (ToNumber ops (node_value ops acc)) (Number ops t1)))"
proof (intro conjI allI impI)
  have first: "loop_body lineNumber [t1, op1, t2, op2, t3] [] g =
      Continue [t1, op1, t2, op2] [Node (NumberNode t3)] g"
    using assms(3) by (simp add: loop_body_empty is_numeral_digit)
  have second: "loop_body lineNumber [t1, op1, t2, op2] [Node (NumberNode t3)] g =
      Continue [t1, op1] [Node (BinaryExpressionNode op2 (NumberNode t3) (NumberNode t2))] g"
    using loop_body_reduce [of "NumberNode t3" op2 t2 lineNumber "[t1, op1]" g] assms
    by simp
  have third: "loop_body lineNumber [t1, op1]
        [Node (BinaryExpressionNode op2 (NumberNode t3) (NumberNode t2))] g =
      Continue []
        [Node (BinaryExpressionNode op1
           (BinaryExpressionNode op2 (NumberNode t3) (NumberNode t2)) (NumberNode t1))] g"
    using loop_body_reduce [of "BinaryExpressionNode op2 (NumberNode t3) (NumberNode t2)"
        op1 t1 lineNumber "[]" g] assms
    by simp
  have "scan lineNumber [t1, op1, t2, op2, t3] [] g =
      scan lineNumber [t1, op1, t2, op2] [Node (NumberNode t3)] g"
    by (subst scan.simps) (simp add: first)
  also have "\<dots> = scan lineNumber [t1, op1]
      [Node (BinaryExpressionNode op2 (NumberNode t3) (NumberNode t2))] g"
    by (subst scan.simps) (simp add: second)
  also have "\<dots> = scan lineNumber []
      [Node (BinaryExpressionNode op1
         (BinaryExpressionNode op2 (NumberNode t3) (NumberNode t2)) (NumberNode t1))] g"
    by (subst scan.simps) (simp add: third)
  finally show "fst (parseExpression [t1, op1, t2, op2, t3] lineNumber g) =
       Normal (Some (Node
         (BinaryExpressionNode op1
            (BinaryExpressionNode op2 (NumberNode t3) (NumberNode t2)) (NumberNode t1))))"
    by (simp add: parseExpression_def scan_finished)
next
  have "value_of ops (Node (BinaryExpressionNode op2 (NumberNode t3) (NumberNode t2))) =
      JNumber (arith ops op2 (Number ops t3) (Number ops t2))"
    using value_of_binary [OF assms(5), of ops "NumberNode t3" t2] by simp
  then show "value_of ops (Node
         (BinaryExpressionNode op1
            (BinaryExpressionNode op2 (NumberNode t3) (NumberNode t2)) (NumberNode t1))) =
       JNumber (arith ops op1 (arith ops op2 (Number ops t3) (Number ops t2)) (Number ops t1))"
    using value_of_binary [OF assms(4), of ops
        "BinaryExpressionNode op2 (NumberNode t3) (NumberNode t2)" t1]
    by simp
next
  fix acc tokens
  assume "is_expression (Node acc)"
  then show "loop_body lineNumber (tokens @ [t1, op1]) [Node acc] g =
      Continue tokens [Node (BinaryExpressionNode op1 acc (NumberNode t1))] g"
    using assms(4) assms(1) by (rule loop_body_reduce)
next
  fix acc tokens
  show "value_of ops (Node (BinaryExpressionNode op1 acc (NumberNode t1))) =
      JNumber (arith ops op1 (ToNumber ops (node_value ops acc)) (Number ops t1))"
    using assms(4) by (rule value_of_binary)
qed

theorem right_to_left_reduction_witness:
  "is_numeral ''10'' \<and> is_numeral ''2'' \<and> is_numeral ''4'' \<and> is_operator ''-'' \<and>
   is_operator ''/'' \<and> is_expression (Node (NumberNode ''7'')) \<and>
   fst (parseExpression [''10'', ''-'', ''2'', ''/'', ''4''] 1 initial_globals) =
     Normal (Some (Node
       (BinaryExpressionNode ''-''
          (BinaryExpressionNode ''/'' (NumberNode ''4'') (NumberNode ''2''))
          (NumberNode ''10'')))) \<and>
   value_of symbolic (Node
       (BinaryExpressionNode ''-''
          (BinaryExpressionNode ''/'' (NumberNode ''4'') (NumberNode ''2''))
          (NumberNode ''10''))) = JNumber ''((4/2)-10)'' \<and>
   loop_body 1 [''10'', ''-''] [Node (NumberNode ''7'')] initial_globals =
     Continue [] [Node (BinaryExpressionNode ''-'' (NumberNode ''7'') (NumberNode ''10''))]
       initial_globals \<and>
   value_of symbolic (Node (BinaryExpressionNode ''-'' (NumberNode ''7'') (NumberNode ''10''))) =
     JNumber ''(7-10)''"
proof -
  have n1: "is_numeral ''10''" and n2: "is_numeral ''2''" and n3: "is_numeral ''4''"
    by (simp_all add: is_numeral_def NUMBER_PATTERN_def in_range_def)
  have o1: "is_operator ''-''" and o2: "is_operator ''/''"
    by (simp_all add: is_operator_def)
  have e: "is_expression (Node (NumberNode ''7''))"
    by simp
  from right_to_left_reduction [OF n1 n2 n3 o1 o2, of 1 initial_globals symbolic] e
  have "loop_body 1 ([] @ [''10'', ''-'']) [Node (NumberNode ''7'')] initial_globals =
        Continue [] [Node (BinaryExpressionNode ''-'' (NumberNode ''7'') (NumberNode ''10''))]
          initial_globals"
    by blast
  with right_to_left_reduction [OF n1 n2 n3 o1 o2, of 1 initial_globals symbolic]
    n1 n2 n3 o1 o2 e
  show ?thesis
    by (simp add: arith_def symbolic_def)
qed

section \<open>Where the parser departs from what its comments say\<close>

text \<open>
  C2. \<open>NUMBER_REGEX.test\<close> looks for the pattern anywhere in the token, so a token with
  a digit in it passes where the parser requires a numeral: \<open>01\<close>, \<open>-1\<close> and \<open>1.2.3\<close>
  are outside the numeral grammar and still become NUMBER nodes, as the last token of a
  line and as the operand to the left of an operator.
\<close>

theorem number_test_is_unanchored:
  "\<not> is_numeral ''01'' \<and> \<not> is_numeral ''-1'' \<and> \<not> is_numeral ''1.2.3'' \<and>
   fst (parseExpression [''01''] lineNumber g) = Normal (Some (Node (NumberNode ''01''))) \<and>
   fst (parseExpression [''-1''] lineNumber g) = Normal (Some (Node (NumberNode ''-1''))) \<and>
   fst (parseExpression [''1.2.3'', ''+'', ''2''] lineNumber g) =
     Normal (Some (Node (BinaryExpressionNode ''+'' (NumberNode ''2'') (NumberNode ''1.2.3''))))"
proof (intro conjI)
  show "\<not> is_numeral ''01''" and "\<not> is_numeral ''-1''" and "\<not> is_numeral ''1.2.3''"
    by (simp_all add: is_numeral_def NUMBER_PATTERN_def in_range_def)
next
  have "loop_body lineNumber [''01''] [] g = Continue [] [Node (NumberNode ''01'')] g"
    by (simp add: loop_body_empty is_digit_def in_range_def)
  then have "scan lineNumber [''01''] [] g = (Normal (Some (Node (NumberNode ''01''))), g)"
    by (simp add: scan_Continue scan_finished)
  then show "fst (parseExpression [''01''] lineNumber g) =
      Normal (Some (Node (NumberNode ''01'')))"
    by (simp add: parseExpression_def)
next
  have "loop_body lineNumber [''-1''] [] g = Continue [] [Node (NumberNode ''-1'')] g"
    by (simp add: loop_body_empty is_digit_def in_range_def)
  then have "scan lineNumber [''-1''] [] g = (Normal (Some (Node (NumberNode ''-1''))), g)"
    by (simp add: scan_Continue scan_finished)
  then show "fst (parseExpression [''-1''] lineNumber g) =
      Normal (Some (Node (NumberNode ''-1'')))"
    by (simp add: parseExpression_def)
next
  have "loop_body lineNumber [''1.2.3'', ''+'', ''2''] [] g =
      Continue [''1.2.3'', ''+''] [Node (NumberNode ''2'')] g"
    by (simp add: loop_body_empty is_digit_def in_range_def)
  moreover have "loop_body lineNumber [''1.2.3'', ''+''] [Node (NumberNode ''2'')] g =
      Continue [] [Node (BinaryExpressionNode ''+'' (NumberNode ''2'') (NumberNode ''1.2.3''))] g"
    by (simp add: loop_body_expression is_digit_def is_operation_char_def in_range_def)
  ultimately have "scan lineNumber [''1.2.3'', ''+'', ''2''] [] g =
      (Normal (Some (Node
         (BinaryExpressionNode ''+'' (NumberNode ''2'') (NumberNode ''1.2.3'')))), g)"
    by (simp add: scan_Continue scan_finished)
  then show "fst (parseExpression [''1.2.3'', ''+'', ''2''] lineNumber g) =
      Normal (Some (Node (BinaryExpressionNode ''+'' (NumberNode ''2'') (NumberNode ''1.2.3''))))"
    by (simp add: parseExpression_def)
qed

text \<open>
  C3. \<open>OPERATION_REGEX.test\<close> looks for an operator symbol anywhere in the token, so the
  token \<open>++\<close>, which is none of the four operators, is installed as the operation of a
  BINARY_EXPRESSION node; no case of the \<open>switch\<close> applies to it and the node evaluates
  to \<open>undefined\<close>.
\<close>

theorem operation_test_is_unanchored:
  "\<not> is_operator ''++'' \<and>
   fst (parseExpression [''1'', ''++'', ''2''] lineNumber g) =
     Normal (Some (Node (BinaryExpressionNode ''++'' (NumberNode ''2'') (NumberNode ''1'')))) \<and>
   value_of ops (Node (BinaryExpressionNode ''++'' (NumberNode ''2'') (NumberNode ''1''))) =
     JUndefined"
proof (intro conjI)
  show "\<not> is_operator ''++''"
    by (simp add: is_operator_def)
next
  have "loop_body lineNumber [''1'', ''++'', ''2''] [] g =
      Continue [''1'', ''++''] [Node (NumberNode ''2'')] g"
    by (simp add: loop_body_empty is_digit_def in_range_def)
  moreover have "loop_body lineNumber [''1'', ''++''] [Node (NumberNode ''2'')] g =
      Continue [] [Node (BinaryExpressionNode ''++'' (NumberNode ''2'') (NumberNode ''1''))] g"
    by (simp add: loop_body_expression is_digit_def is_operation_char_def in_range_def)
  ultimately have "scan lineNumber [''1'', ''++'', ''2''] [] g =
      (Normal (Some (Node
         (BinaryExpressionNode ''++'' (NumberNode ''2'') (NumberNode ''1'')))), g)"
    by (simp add: scan_Continue scan_finished)
  then show "fst (parseExpression [''1'', ''++'', ''2''] lineNumber g) =
      Normal (Some (Node (BinaryExpressionNode ''++'' (NumberNode ''2'') (NumberNode ''1''))))"
    by (simp add: parseExpression_def)
next
  show "value_of ops (Node (BinaryExpressionNode ''++'' (NumberNode ''2'') (NumberNode ''1''))) =
      JUndefined"
    by simp
qed

text \<open>
  C7. For the line \<open>+ 1\<close> the parser returns an INCOMPLETE_EXPRESSION error that expects
  a number literal; its token is \<open>undefined\<close>, not the empty string, and the message
  renders it as \<open>undefined\<close> between the quotes.
\<close>

theorem leading_operator_message:
  "lexer (trim ''+ 1'') = [''+'', ''1''] \<and>
   fst (parseExpression [''+'', ''1''] 7 g) =
     Normal (Some (Error (CompilerError INCOMPLETE_EXPRESSION ''a number literal'' None 7))) \<and>
   value_of ops (Error (CompilerError INCOMPLETE_EXPRESSION ''a number literal'' None 7)) =
     JString (''[COMPILATION ERROR]: Incomplete expression provided => expected '' @
              ''a number literal, got '' @ quote @ ''undefined'' @ quote @ '' on line 7'')"
proof (intro conjI)
  show "lexer (trim ''+ 1'') = [''+'', ''1'']"
    by (simp add: lexer_def trim_def is_space_def split_spaces.simps)
next
  have "loop_body 7 [''+'', ''1''] [] g = Continue [''+''] [Node (NumberNode ''1'')] g"
    by (simp add: loop_body_empty is_digit_def in_range_def)
  moreover have "loop_body 7 [''+''] [Node (NumberNode ''1'')] g =
      Return (Normal (Some (Error
        (CompilerError INCOMPLETE_EXPRESSION ''a number literal'' None 7)))) g"
    by (simp add: loop_body_expression is_operation_char_def)
  ultimately have "scan 7 [''+'', ''1''] [] g =
      (Normal (Some (Error (CompilerError INCOMPLETE_EXPRESSION ''a number literal'' None 7))), g)"
    by (simp add: scan_Continue scan_Return)
  then show "fst (parseExpression [''+'', ''1''] 7 g) =
      Normal (Some (Error (CompilerError INCOMPLETE_EXPRESSION ''a number literal'' None 7)))"
    by (simp add: parseExpression_def)
next
  show "value_of ops (Error (CompilerError INCOMPLETE_EXPRESSION ''a number literal'' None 7)) =
     JString (''[COMPILATION ERROR]: Incomplete expression provided => expected '' @
              ''a number literal, got '' @ quote @ ''undefined'' @ quote @ '' on line 7'')"
    by (simp add: generateError_def digit_char_def)
qed

section \<open>Blank lines\<close>

lemma trim_blank:
  assumes "list_all is_space line"
  shows "trim line = []"
proof -
  from assms have "dropWhile is_space line = []"
    by (simp add: list_all_iff)
  then show ?thesis
    by (simp add: trim_def del: dropWhile_eq_Nil_conv)
qed

lemma split_spaces_empty: "split_spaces [] = [[]]"
  by (simp add: split_spaces.simps)

lemma last_dropWhile: "dropWhile P xs \<noteq> [] \<Longrightarrow> last (dropWhile P xs) = last xs"
  by (induction xs) (auto split: if_splits)

lemma trim_not_blank:
  assumes "\<not> list_all is_space line"
  shows "trim line \<noteq> [] \<and> \<not> is_space (hd (trim line))"
proof -
  let ?s = "dropWhile is_space line"
  from assms have ne: "?s \<noteq> []"
    by (simp add: list_all_iff)
  then have hd: "\<not> is_space (hd ?s)"
    using hd_dropWhile [of is_space line] by simp
  from ne hd have "last (rev ?s) = hd ?s"
    by (simp add: last_rev)
  with hd have "\<not> is_space (last (rev ?s))" by simp
  moreover from ne have "last (rev ?s) \<in> set (rev ?s)"
    by (intro last_in_set) simp
  ultimately have ne2: "dropWhile is_space (rev ?s) \<noteq> []"
    by auto
  then have "last (dropWhile is_space (rev ?s)) = last (rev ?s)"
    by (rule last_dropWhile)
  with ne2 ne have "hd (trim line) = hd ?s"
    by (simp add: trim_def hd_rev last_rev)
  with ne2 hd show ?thesis
    by (simp add: trim_def)
qed

lemma split_spaces_first:
  assumes "s \<noteq> []" and "\<not> is_space (hd s)"
  shows "split_spaces s \<noteq> [] \<and> hd (split_spaces s) \<noteq> []"
proof -
  from assms have "takeWhile (\<lambda>c. \<not> is_space c) s \<noteq> []"
    by (cases s) simp_all
  then show ?thesis
    by (subst (1 2) split_spaces.simps) (simp add: Let_def)
qed

text \<open>
  C8. A line that is empty or all white space gives the VOID node, whose value is
  \<open>null\<close>: not the number zero and not the message of a compilation error. Every other
  line gives a NUMBER node, a BINARY_EXPRESSION node or a compilation error.
\<close>

theorem blank_line_is_void:
  "(list_all is_space line \<longrightarrow>
      fst (parseExpression (lexer (trim line)) lineNumber g) = Normal (Some (Node VoidNode))) \<and>
   value_of ops (Node VoidNode) = JNull \<and>
   value_of ops (Node VoidNode) \<noteq> JNumber (zero ops) \<and>
   (\<forall>e. value_of ops (Node VoidNode) \<noteq> value_of ops (Error e)) \<and>
   (\<not> list_all is_space line \<longrightarrow>
      (\<exists>r. fst (parseExpression (lexer (trim line)) lineNumber g) = Normal (Some r) \<and>
           r \<noteq> Node VoidNode \<and>
           ((\<exists>number. r = Node (NumberNode number)) \<or>
            (\<exists>operation arg1 arg2. r = Node (BinaryExpressionNode operation arg1 arg2)) \<or>
            (\<exists>e. r = Error e))))"
proof (intro conjI impI allI)
  assume "list_all is_space line"
  then have "lexer (trim line) = [[]]"
    by (simp add: lexer_def trim_blank split_spaces_empty)
  then show "fst (parseExpression (lexer (trim line)) lineNumber g) =
      Normal (Some (Node VoidNode))"
    by (simp add: parseExpression_def)
next
  show "value_of ops (Node VoidNode) = JNull" by simp
next
  show "value_of ops (Node VoidNode) \<noteq> JNumber (zero ops)" by simp
next
  fix e
  show "value_of ops (Node VoidNode) \<noteq> value_of ops (Error e)" by simp
next
  assume "\<not> list_all is_space line"
  then have "trim line \<noteq> []" and "\<not> is_space (hd (trim line))"
    using trim_not_blank by blast+
  then have ne: "lexer (trim line) \<noteq> []" and first: "hd (lexer (trim line)) \<noteq> []"
    using split_spaces_first [of "trim line"] by (simp_all add: lexer_def)
  then have "lexer (trim line) ! 0 \<noteq> []"
    by (simp add: hd_conv_nth)
  with ne have not_void:
    "\<not> (lexer (trim line) = [] \<or> (length (lexer (trim line)) = 1 \<and> lexer (trim line) ! 0 = []))"
    by simp
  from parseExpression_not_void [OF not_void, of lineNumber g]
  obtain r where r: "parseExpression (lexer (trim line)) lineNumber g = (Normal (Some r), g)"
    and res: "is_scan_result r"
    by blast
  have "r \<noteq> Node VoidNode \<and>
        ((\<exists>number. r = Node (NumberNode number)) \<or>
         (\<exists>operation arg1 arg2. r = Node (BinaryExpressionNode operation arg1 arg2)) \<or>
         (\<exists>e. r = Error e))"
  proof (cases r)
    case (Node n)
    with res show ?thesis by (cases n) simp_all
  next
    case (Error e)
    then show ?thesis by simp
  qed
  with r show "\<exists>r. fst (parseExpression (lexer (trim line)) lineNumber g) = Normal (Some r) \<and>
           r \<noteq> Node VoidNode \<and>
           ((\<exists>number. r = Node (NumberNode number)) \<or>
            (\<exists>operation arg1 arg2. r = Node (BinaryExpressionNode operation arg1 arg2)) \<or>
            (\<exists>e. r = Error e))"
    by simp
qed

theorem blank_line_is_void_witness:
  "list_all is_space ''  '' \<and>
   fst (parseExpression (lexer (trim ''  '')) 1 initial_globals) = Normal (Some (Node VoidNode)) \<and>
   \<not> list_all is_space '' 2 '' \<and>
   (\<exists>r. fst (parseExpression (lexer (trim '' 2 '')) 1 initial_globals) = Normal (Some r) \<and>
        r \<noteq> Node VoidNode)"
proof -
  have blank: "list_all is_space ''  ''" and other: "\<not> list_all is_space '' 2 ''"
    by (simp_all add: is_space_def)
  from blank blank_line_is_void [of "''  ''" 1 initial_globals symbolic]
  have "fst (parseExpression (lexer (trim ''  '')) 1 initial_globals) =
      Normal (Some (Node VoidNode))"
    by blast
  moreover from other blank_line_is_void [of "'' 2 ''" 1 initial_globals symbolic]
  have "\<exists>r. fst (parseExpression (lexer (trim '' 2 '')) 1 initial_globals) = Normal (Some r) \<and>
        r \<noteq> Node VoidNode"
    by blast
  ultimately show ?thesis
    using blank other by simp
qed

section \<open>One result per line, in order, whatever the state of the pattern objects\<close>

lemma loop_body_globals:
  "loop_body lineNumber tokens stack g' =
     (case loop_body lineNumber tokens stack g of
        Continue tokens' stack' g1 \<Rightarrow> Continue tokens' stack' g'
      | Return r g1 \<Rightarrow> Return r g')"
  by (simp add: loop_body_def Let_def split: ParseResult.splits option.splits prod.splits)

lemma scan_globals: "scan lineNumber tokens stack g' = (fst (scan lineNumber tokens stack g), g')"
proof (induction lineNumber tokens stack g arbitrary: g' rule: scan.induct)
  case (1 lineNumber tokens stack g)
  show ?case
  proof (cases "tokens = []")
    case True
    then show ?thesis
      by (simp add: scan.simps)
  next
    case False
    show ?thesis
    proof (cases "loop_body lineNumber tokens stack g")
      case (Continue tokens' stack' g1)
      then have "loop_body lineNumber tokens stack g' = Continue tokens' stack' g'"
        using loop_body_globals [of lineNumber tokens stack g' g] by simp
      with False have "scan lineNumber tokens stack g' = scan lineNumber tokens' stack' g'"
        by (rule scan_Continue)
      also have "\<dots> = (fst (scan lineNumber tokens' stack' g1), g')"
        using "1.IH" [OF False Continue] .
      also have "scan lineNumber tokens' stack' g1 = scan lineNumber tokens stack g"
        using scan_Continue [OF False Continue] by simp
      finally show ?thesis .
    next
      case (Return r g1)
      then have "loop_body lineNumber tokens stack g' = Return r g'"
        using loop_body_globals [of lineNumber tokens stack g' g] by simp
      with False have "scan lineNumber tokens stack g' = (r, g')"
        by (rule scan_Return)
      moreover have "scan lineNumber tokens stack g = (r, g1)"
        using False Return by (rule scan_Return)
      ultimately show ?thesis by simp
    qed
  qed
qed

lemma parseExpression_globals:
  "parseExpression tokens lineNumber g' = (fst (parseExpression tokens lineNumber g), g')"
  using scan_globals [of lineNumber tokens "[]" g' g] by (simp add: parseExpression_def)

text \<open>The parse result of one line of a document, as a function of the line, its number
  and the state of the pattern objects.\<close>

definition parse_line :: "string \<Rightarrow> nat \<Rightarrow> globals \<Rightarrow> ParseResult option completion" where
  "parse_line line lineNumber g = fst (parseExpression (lexer (trim line)) lineNumber g)"

lemma compile_map_results:
  "\<exists>stack. compile_map lines index g = (Normal (map Some stack), g) \<and>
     length stack = length lines \<and>
     (\<forall>i<length lines. parse_line (lines ! i) (index + i + 1) g = Normal (Some (stack ! i)))"
proof (induction lines arbitrary: index)
  case Nil
  show ?case by simp
next
  case (Cons line lines)
  from parseExpression_returns [of "lexer (trim line)" "index + 1" g]
  obtain r where r: "parseExpression (lexer (trim line)) (index + 1) g = (Normal (Some r), g)"
    by blast
  from Cons.IH [of "index + 1"]
  obtain stack where stack: "compile_map lines (index + 1) g = (Normal (map Some stack), g)"
    and len: "length stack = length lines"
    and each: "\<forall>i<length lines.
      parse_line (lines ! i) (index + 1 + i + 1) g = Normal (Some (stack ! i))"
    by blast
  have "compile_map (line # lines) index g = (Normal (map Some (r # stack)), g)"
    using r stack by simp
  moreover have "length (r # stack) = length (line # lines)"
    using len by simp
  moreover have "\<forall>i<length (line # lines).
      parse_line ((line # lines) ! i) (index + i + 1) g = Normal (Some ((r # stack) ! i))"
  proof (intro allI impI)
    fix i
    assume i: "i < length (line # lines)"
    show "parse_line ((line # lines) ! i) (index + i + 1) g = Normal (Some ((r # stack) ! i))"
    proof (cases i)
      case 0
      with r show ?thesis by (simp add: parse_line_def)
    next
      case (Suc j)
      with i each have "parse_line (lines ! j) (index + 1 + j + 1) g = Normal (Some (stack ! j))"
        by simp
      with Suc show ?thesis by simp
    qed
  qed
  ultimately show ?case by blast
qed

lemma execute_nodes: "execute ops (map Some stack) = Normal (map (value_of ops) stack)"
  by (induction stack) simp_all

lemma run_results:
  "\<exists>stack. compile file g = (Normal (map Some stack), g) \<and>
     run ops file g = (Normal (map (value_of ops) stack), g) \<and>
     length stack = length (split_newline file) \<and>
     (\<forall>i<length (split_newline file).
        parse_line (split_newline file ! i) (i + 1) g = Normal (Some (stack ! i)))"
proof -
  from compile_map_results [of "split_newline file" 0 g]
  obtain stack where stack: "compile_map (split_newline file) 0 g = (Normal (map Some stack), g)"
    and len: "length stack = length (split_newline file)"
    and each: "\<forall>i<length (split_newline file).
      parse_line (split_newline file ! i) (0 + i + 1) g = Normal (Some (stack ! i))"
    by blast
  from stack have "run ops file g = (Normal (map (value_of ops) stack), g)"
    by (simp add: run_def compile_def execute_nodes)
  with stack len each show ?thesis
    by (auto simp: compile_def)
qed

text \<open>
  C9. \<open>execute(compile(document))\<close> returns one value per line of the document, as
  many as \<open>split\<close> on the newline gives pieces, and the value at each index is the value
  of the parse result of the line at that index, parsed with its 1-based number.
\<close>

theorem one_result_per_line:
  "\<exists>stack values.
     fst (compile file g) = Normal (map Some stack) \<and>
     fst (run ops file g) = Normal values \<and>
     length values = length (split_newline file) \<and>
     (\<forall>i<length values.
        parse_line (split_newline file ! i) (i + 1) g = Normal (Some (stack ! i)) \<and>
        values ! i = value_of ops (stack ! i))"
proof -
  from run_results [of "file" g ops]
  obtain stack where "compile file g = (Normal (map Some stack), g)"
    and "run ops file g = (Normal (map (value_of ops) stack), g)"
    and "length stack = length (split_newline file)"
    and "\<forall>i<length (split_newline file).
        parse_line (split_newline file ! i) (i + 1) g = Normal (Some (stack ! i))"
    by blast
  then have "fst (compile file g) = Normal (map Some stack) \<and>
     fst (run ops file g) = Normal (map (value_of ops) stack) \<and>
     length (map (value_of ops) stack) = length (split_newline file) \<and>
     (\<forall>i<length (map (value_of ops) stack).
        parse_line (split_newline file ! i) (i + 1) g = Normal (Some (stack ! i)) \<and>
        map (value_of ops) stack ! i = value_of ops (stack ! i))"
    by simp
  then show ?thesis by blast
qed
lemma parse_line_sum: "parse_line ''2 + 3'' lineNumber g =
    Normal (Some (Node (BinaryExpressionNode ''+'' (NumberNode ''3'') (NumberNode ''2''))))"
proof -
  have "lexer (trim ''2 + 3'') = [''2'', ''+'', ''3'']"
    by (simp add: lexer_def trim_def is_space_def split_spaces.simps)
  moreover have "loop_body lineNumber [''2'', ''+'', ''3''] [] g =
      Continue [''2'', ''+''] [Node (NumberNode ''3'')] g"
    by (simp add: loop_body_empty is_digit_def in_range_def)
  moreover have "loop_body lineNumber [''2'', ''+''] [Node (NumberNode ''3'')] g =
      Continue [] [Node (BinaryExpressionNode ''+'' (NumberNode ''3'') (NumberNode ''2''))] g"
    by (simp add: loop_body_expression is_digit_def is_operation_char_def in_range_def)
  ultimately show ?thesis
    by (simp add: parse_line_def parseExpression_def scan_Continue scan_finished)
qed

theorem one_result_per_line_witness:
  "length (split_newline (''2 + 3'' @ [newline] @ ''+ 1'')) = 2 \<and>
   (\<exists>values. fst (run symbolic (''2 + 3'' @ [newline] @ ''+ 1'') initial_globals) = Normal values \<and>
      length values = 2 \<and> values ! 0 = JNumber ''(3+2)'')"
proof -
  let ?file = "''2 + 3'' @ [newline] @ ''+ 1''"
  have lines: "split_newline ?file = [''2 + 3'', ''+ 1'']"
    by (simp add: newline_def)
  from one_result_per_line [of ?file initial_globals symbolic]
  obtain stack "values" where run: "fst (run symbolic ?file initial_globals) = Normal values"
    and len: "length values = length (split_newline ?file)"
    and each: "\<forall>i<length values.
        parse_line (split_newline ?file ! i) (i + 1) initial_globals = Normal (Some (stack ! i)) \<and>
        values ! i = value_of symbolic (stack ! i)"
    by blast
  from len lines have two: "length values = 2" by simp
  with each have "parse_line (split_newline ?file ! 0) (0 + 1) initial_globals =
      Normal (Some (stack ! 0)) \<and> values ! 0 = value_of symbolic (stack ! 0)"
    by simp
  with lines have "values ! 0 =
      value_of symbolic (Node (BinaryExpressionNode ''+'' (NumberNode ''3'') (NumberNode ''2'')))"
    by (simp add: parse_line_sum)
  then have "values ! 0 = JNumber ''(3+2)''"
    by (simp add: symbolic_def)
  with run two lines show ?thesis by simp
qed

lemma parse_line_globals: "parse_line line lineNumber g' = parse_line line lineNumber g"
  using parseExpression_globals [of "lexer (trim line)" lineNumber g' g]
  by (simp add: parse_line_def)

lemma run_globals: "run ops file g' = (fst (run ops file g), g')"
proof -
  from run_results [of "file" g ops]
  obtain stack where run: "run ops file g = (Normal (map (value_of ops) stack), g)"
    and len: "length stack = length (split_newline file)"
    and each: "\<forall>i<length (split_newline file).
        parse_line (split_newline file ! i) (i + 1) g = Normal (Some (stack ! i))"
    by blast
  from run_results [of "file" g' ops]
  obtain stack' where run': "run ops file g' = (Normal (map (value_of ops) stack'), g')"
    and len': "length stack' = length (split_newline file)"
    and each': "\<forall>i<length (split_newline file).
        parse_line (split_newline file ! i) (i + 1) g' = Normal (Some (stack' ! i))"
    by blast
  have "stack' = stack"
  proof (rule nth_equalityI)
    show "length stack' = length stack"
      using len len' by simp
  next
    fix i
    assume "i < length stack'"
    with len' each each' have "Normal (Some (stack' ! i)) = Normal (Some (stack ! i))"
      using parse_line_globals [of "split_newline file ! i" "i + 1" g' g] by simp
    then show "stack' ! i = stack ! i" by simp
  qed
  with run run' show ?thesis by simp
qed

text \<open>
  C10. Running the pipeline a second time, from the state in which the first run left
  the pattern objects, gives the same output; the output does not depend on the state
  of the pattern objects at all, and a run leaves that state as it found it.
\<close>

theorem run_is_deterministic:
  "fst (run ops file (snd (run ops file g))) = fst (run ops file g) \<and>
   fst (run ops file g') = fst (run ops file g) \<and>
   snd (run ops file g) = g"
proof (intro conjI)
  show "fst (run ops file (snd (run ops file g))) = fst (run ops file g)"
    using run_globals [of ops "file" "snd (run ops file g)" g] by simp
next
  show "fst (run ops file g') = fst (run ops file g)"
    using run_globals [of ops "file" g' g] by simp
next
  show "snd (run ops file g) = g"
    using run_globals [of ops "file" g g] by (cases "run ops file g") simp
qed

end
